theory Spec2Isabelle
  imports Main "HOL-Library.Sublist"
begin

section \<open>AutoMod keyword-filter management (cogs/automod.py)\<close>

text \<open>
  A shallow embedding of the AutoMod cog: the autocomplete filter
  \<open>rules_autocomplete\<close>, the commands \<open>search_keyword\<close>, \<open>add_keyword\<close> and
  \<open>delete_keyword\<close>, and the listener \<open>on_automod_action\<close>.

  Python strings are kept as \<open>string\<close>, read as the UTF-8 bytes of the text: equality,
  concatenation and the substring test \<open>a in b\<close> agree on code points and on their UTF-8
  encoding. Everything the handlers do to the outside world (the rule object they were
  handed, the calls to the rule store, the message sent back, the bot's action list, the
  kick) is returned explicitly.
\<close>

subsection \<open>Python primitives used by the cog\<close>

text \<open>\<open>str(n)\<close> for an integer: decimal digits, a leading minus sign when negative.\<close>

definition digit :: "nat \<Rightarrow> char" where
  "digit d = ''0123456789'' ! d"

fun str_nat :: "nat \<Rightarrow> string" where
  "str_nat n = (if n < 10 then [digit n] else str_nat (n div 10) @ [digit (n mod 10)])"

declare str_nat.simps [simp del]

definition str :: "int \<Rightarrow> string" where
  "str i = (if i < 0 then ''-'' @ str_nat (nat (- i)) else str_nat (nat i))"

text \<open>\<open>word in keyword\<close> on two strings: \<open>word\<close> occurs in \<open>keyword\<close> as a contiguous run.\<close>

fun startswith :: "string \<Rightarrow> string \<Rightarrow> bool" where
  "startswith s [] = True"
| "startswith [] (c # cs) = False"
| "startswith (d # ds) (c # cs) = (d = c \<and> startswith ds cs)"

fun contains :: "string \<Rightarrow> string \<Rightarrow> bool" where
  "contains word [] = (word = [])"
| "contains word (c # cs) = (startswith (c # cs) word \<or> contains word cs)"

text \<open>\<open>sep.join(parts)\<close>.\<close>

fun join :: "string \<Rightarrow> string list \<Rightarrow> string" where
  "join sep [] = []"
| "join sep [p] = p"
| "join sep (p # q # ps) = p @ sep @ join sep (q # ps)"

text \<open>
  A Python \<open>dict\<close> keeps its keys in the order of their first insertion; assigning to a
  key that is already there replaces the value and leaves the key where it is. The
  dictionary is therefore an association list with one entry per key.
\<close>

type_synonym ('k, 'v) dict = "('k \<times> 'v) list"

text \<open>\<open>d[k] = v\<close>\<close>

fun dict_setitem :: "'k \<Rightarrow> 'v \<Rightarrow> ('k, 'v) dict \<Rightarrow> ('k, 'v) dict" where
  "dict_setitem k v [] = [(k, v)]"
| "dict_setitem k v ((k', v') # d) =
     (if k' = k then (k, v) # d else (k', v') # dict_setitem k v d)"

text \<open>
  \<open>d[k].append(x)\<close>: the list stored under \<open>k\<close> grows by one element; \<open>None\<close> stands for
  the \<open>KeyError\<close> Python raises when the key is missing.
\<close>

fun dict_append :: "'k \<Rightarrow> 'x \<Rightarrow> ('k, 'x list) dict \<Rightarrow> ('k, 'x list) dict option" where
  "dict_append k x [] = None"
| "dict_append k x ((k', xs) # d) =
     (if k' = k then Some ((k', xs @ [x]) # d)
      else map_option ((#) (k', xs)) (dict_append k x d))"

text \<open>The exceptions of the Python primitives that the commands could let through.\<close>

datatype py_error = ValueError | KeyError

text \<open>
  \<open>xs.remove(x)\<close>: deletes the first element equal to \<open>x\<close>; \<open>None\<close> stands for the
  \<open>ValueError\<close> Python raises when there is none.
\<close>

fun list_remove :: "'a \<Rightarrow> 'a list \<Rightarrow> 'a list option" where
  "list_remove x [] = None"
| "list_remove x (y # ys) =
     (if y = x then Some ys else map_option ((#) y) (list_remove x ys))"

subsection \<open>The platform's data, as the cog reads it\<close>

datatype AutoModRuleTriggerType =
  Keyword | Harmful_link | Spam | Keyword_preset | Mention_spam | Member_profile

record AutoModTrigger =
  type :: AutoModRuleTriggerType
  keyword_filter :: "string list"
  regex_patterns :: "string list"

record AutoModRule =
  rule_id :: int
  name :: string
  trigger :: AutoModTrigger

text \<open>\<open>app_commands.Choice(name=..., value=...)\<close>\<close>

datatype Choice = Choice string string

text \<open>
  Modelled from the spec: \<open>text_to_discord_file\<close> is defined in utils/utils.py, which is not
  part of the sources at hand; the spec only calls its result the human-readable output.
  The attachment is kept as the file name and the text it was built from.
\<close>

datatype File = File string string

definition text_to_discord_file :: "string \<Rightarrow> string \<Rightarrow> File" where
  "text_to_discord_file text name' = File name' text"

text \<open>
  \<open>interaction.response.send_message(content, ephemeral=..., file=...)\<close>: what the
  command answers.
\<close>

record message =
  content :: string
  ephemeral :: bool
  file' :: "File option"

definition send_message :: "string \<Rightarrow> bool \<Rightarrow> File option \<Rightarrow> message" where
  "send_message c e f = \<lparr>content = c, ephemeral = e, file' = f\<rparr>"

subsection \<open>Rule autocomplete\<close>

definition choice_of :: "AutoModRule \<Rightarrow> Choice" where
  "choice_of rule = Choice (name rule) (str (rule_id rule))"

text \<open>The loop of the branch \<open>if current:\<close>, appending to \<open>choices\<close>.\<close>

fun collect_choices :: "string \<Rightarrow> AutoModRule list \<Rightarrow> Choice list \<Rightarrow> Choice list" where
  "collect_choices current [] choices = choices"
| "collect_choices current (rule # rules) choices =
     (if type (trigger rule) = Keyword \<and> contains current (name rule)
      then collect_choices current rules (choices @ [choice_of rule])
      else collect_choices current rules choices)"

text \<open>\<open>rules\<close> is what \<open>interaction.guild.fetch_automod_rules()\<close> returned.\<close>

definition rules_autocomplete :: "AutoModRule list \<Rightarrow> string \<Rightarrow> Choice list" where
  "rules_autocomplete rules current =
     (if current \<noteq> [] then collect_choices current rules []
      else [choice_of rule. rule \<leftarrow> rules, type (trigger rule) = Keyword])"

subsection \<open>Keyword search\<close>

text \<open>The inner loop over \<open>rule.trigger.keyword_filter\<close>; the state is \<open>(matches, count)\<close>.\<close>

fun scan_keywords ::
  "string \<Rightarrow> string \<Rightarrow> string list \<Rightarrow> (string, string list) dict \<times> nat
     \<Rightarrow> ((string, string list) dict \<times> nat) option" where
  "scan_keywords word rule_name [] (matches, count) = Some (matches, count)"
| "scan_keywords word rule_name (keyword # keywords) (matches, count) =
     (if contains word keyword
      then (case dict_append rule_name (keyword @ '' contains '' @ word) matches of
              None \<Rightarrow> None
            | Some matches' \<Rightarrow> scan_keywords word rule_name keywords (matches', count + 1))
      else scan_keywords word rule_name keywords (matches, count))"

text \<open>The outer loop over the fetched rules.\<close>

fun scan_rules ::
  "string \<Rightarrow> AutoModRule list \<Rightarrow> (string, string list) dict \<times> nat
     \<Rightarrow> ((string, string list) dict \<times> nat) option" where
  "scan_rules word [] (matches, count) = Some (matches, count)"
| "scan_rules word (rule # rules) (matches, count) =
     (if type (trigger rule) \<noteq> Keyword then scan_rules word rules (matches, count)
      else (case scan_keywords word (name rule) (keyword_filter (trigger rule))
                   (dict_setitem (name rule) [] matches, count) of
              None \<Rightarrow> None
            | Some (matches', count') \<Rightarrow> scan_rules word rules (matches', count')))"

text \<open>The loop \<open>for rule_name in matches\<close>, which assigns \<open>text\<close> anew for each non-empty entry.\<close>

fun render_matches :: "(string, string list) dict \<Rightarrow> string \<Rightarrow> string" where
  "render_matches [] text = text"
| "render_matches ((rule_name, descriptions) # matches) text =
     (if descriptions = [] then render_matches matches text
      else render_matches matches
             (''Rule '' @ rule_name @ '':\<newline>  '' @ join ''  \<newline>'' descriptions))"

text \<open>
  \<open>Inl KeyError\<close> is the exception \<open>matches[rule.name].append\<close> would raise out of the
  command; the assignment \<open>matches[rule.name] = []\<close> in front of the inner loop keeps it from
  happening (\<open>search_keyword_returns\<close> below).
\<close>

definition search_keyword :: "AutoModRule list \<Rightarrow> string \<Rightarrow> py_error + message" where
  "search_keyword rules word =
     (case scan_rules word rules ([], 0) of
        None \<Rightarrow> Inl KeyError
      | Some (matches, count) \<Rightarrow>
          Inr (if count = 0 then send_message ''No match found.'' False None
               else send_message (str (int count) @ '' matches found.'') False
                      (Some (text_to_discord_file (render_matches matches []) ''matches.txt''))))"

subsection \<open>Adding and deleting keywords\<close>

text \<open>
  \<open>rule.edit(trigger=...)\<close> is a call to the platform: it either goes through or raises
  \<open>discord.HTTPException\<close>, whose text is kept. The store's answer is a parameter of the
  commands.
\<close>

datatype edit_result = Edited | HTTPException string

type_synonym rule_store = "AutoModRule \<Rightarrow> AutoModTrigger \<Rightarrow> edit_result"

text \<open>
  What a command leaves behind: the rule object it was handed (mutated in place by the
  source), the replace requests it sent to the store (rule id and submitted trigger), and
  its answer.
\<close>

record edit_outcome =
  rule_after :: AutoModRule
  store_calls :: "(int \<times> AutoModTrigger) list"
  response :: message

definition early_return :: "AutoModRule \<Rightarrow> string \<Rightarrow> edit_outcome" where
  "early_return rule c =
     \<lparr>rule_after = rule, store_calls = [], response = send_message c True None\<rparr>"

text \<open>Lines 120 to 126: the \<open>try\<close> around \<open>rule.edit\<close> and the two answers of \<open>add_keyword\<close>.\<close>

definition add_submit :: "rule_store \<Rightarrow> AutoModRule \<Rightarrow> string \<Rightarrow> edit_outcome" where
  "add_submit edit rule keyword =
     (case edit rule (trigger rule) of
        HTTPException e \<Rightarrow>
          \<lparr>rule_after = rule, store_calls = [(rule_id rule, trigger rule)],
           response = send_message (''Failed to add keyword: '' @ e @ ''.'') True None\<rparr>
      | Edited \<Rightarrow>
          \<lparr>rule_after = rule, store_calls = [(rule_id rule, trigger rule)],
           response = send_message
             (''Added keyword '' @ keyword @ '' to '' @ name rule @ '' Automod rule succesfully.'')
             True None\<rparr>)"

definition add_keyword :: "rule_store \<Rightarrow> AutoModRule \<Rightarrow> string \<Rightarrow> bool \<Rightarrow> edit_outcome" where
  "add_keyword edit rule keyword regex =
     (if type (trigger rule) \<noteq> Keyword
      then early_return rule ''This automod rule doesn't have a keyword filter.''
      else if regex then
        (if keyword \<in> set (regex_patterns (trigger rule))
         then early_return rule ''This regex expression is already in the filter.''
         else add_submit edit
                (rule\<lparr>trigger := (trigger rule)
                   \<lparr>regex_patterns := regex_patterns (trigger rule) @ [keyword]\<rparr>\<rparr>)
                keyword)
      else
        (if keyword \<in> set (keyword_filter (trigger rule))
         then early_return rule ''This keyword is already in the filter.''
         else add_submit edit
                (rule\<lparr>trigger := (trigger rule)
                   \<lparr>keyword_filter := keyword_filter (trigger rule) @ [keyword]\<rparr>\<rparr>)
                keyword))"

text \<open>Lines 158 to 164, the same for \<open>delete_keyword\<close>.\<close>

definition delete_submit :: "rule_store \<Rightarrow> AutoModRule \<Rightarrow> string \<Rightarrow> edit_outcome" where
  "delete_submit edit rule keyword =
     (case edit rule (trigger rule) of
        HTTPException e \<Rightarrow>
          \<lparr>rule_after = rule, store_calls = [(rule_id rule, trigger rule)],
           response = send_message (''Failed to delete keyword: '' @ e @ ''.'') True None\<rparr>
      | Edited \<Rightarrow>
          \<lparr>rule_after = rule, store_calls = [(rule_id rule, trigger rule)],
           response = send_message
             (''Deleted keyword '' @ keyword @ '' from '' @ name rule
                @ '' automod rule succesfully.'')
             True None\<rparr>)"

text \<open>
  \<open>Inl ValueError\<close> is the exception \<open>list.remove\<close> would raise out of the command; the
  membership test in front of each \<open>remove\<close> keeps it from happening
  (\<open>delete_keyword_returns\<close> below).
\<close>

definition delete_keyword ::
  "rule_store \<Rightarrow> AutoModRule \<Rightarrow> string \<Rightarrow> bool \<Rightarrow> py_error + edit_outcome" where
  "delete_keyword edit rule keyword regex =
     (if type (trigger rule) \<noteq> Keyword
      then Inr (early_return rule ''This AutoMod rule doesn't have a keyword filter.'')
      else if regex then
        (if keyword \<notin> set (regex_patterns (trigger rule))
         then Inr (early_return rule ''This regex expression is not in the filter.'')
         else (case list_remove keyword (regex_patterns (trigger rule)) of
                 None \<Rightarrow> Inl ValueError
               | Some patterns \<Rightarrow>
                   Inr (delete_submit edit
                          (rule\<lparr>trigger := (trigger rule)\<lparr>regex_patterns := patterns\<rparr>\<rparr>)
                          keyword)))
      else
        (if keyword \<notin> set (keyword_filter (trigger rule))
         then Inr (early_return rule ''This keyword is not in the filter.'')
         else (case list_remove keyword (keyword_filter (trigger rule)) of
                 None \<Rightarrow> Inl ValueError
               | Some keywords \<Rightarrow>
                   Inr (delete_submit edit
                          (rule\<lparr>trigger := (trigger rule)\<lparr>keyword_filter := keywords\<rparr>\<rparr>)
                          keyword))))"

subsection \<open>The listener for AutoMod actions\<close>

text \<open>A call that returns a value or raises; the exception is kept as its text.\<close>

datatype 'a outcome = Returns 'a | Raises string

record Member =
  member_id :: int

text \<open>
  The event, as the listener reads it: what \<open>action.fetch_rule()\<close> gives for it, and
  \<open>action.member\<close> (\<open>None\<close> when the member is not known).
\<close>

record AutoModAction =
  fetch_rule :: "AutoModRule option outcome"
  member' :: "Member option"

text \<open>\<open>self.bot\<close>: only its list \<open>actions\<close> is touched here.\<close>

record Kurisu =
  actions :: "string list"

text \<open>What the listener does to the outside, in the order it does it.\<close>

datatype effect = Actions_append string | Kick int string

record reaction =
  bot_after :: Kurisu
  effects :: "effect list"
  raised :: "string option"

definition no_reaction :: "Kurisu \<Rightarrow> reaction" where
  "no_reaction bot' = \<lparr>bot_after = bot', effects = [], raised = None\<rparr>"

text \<open>\<open>kick member reason\<close> is the answer of \<open>member.kick(reason=...)\<close>.\<close>

definition on_automod_action ::
  "(Member \<Rightarrow> string \<Rightarrow> unit outcome) \<Rightarrow> Kurisu \<Rightarrow> AutoModAction \<Rightarrow> reaction" where
  "on_automod_action kick bot' action =
     (case fetch_rule action of
        Raises e \<Rightarrow> \<lparr>bot_after = bot', effects = [], raised = Some e\<rparr>
      | Returns None \<Rightarrow> no_reaction bot'
      | Returns (Some rule) \<Rightarrow>
          (case member' action of
             None \<Rightarrow> no_reaction bot'
           | Some m \<Rightarrow>
               if name rule = ''Scams'' then
                 \<lparr>bot_after = bot'\<lparr>actions := actions bot' @ [''wk:'' @ str (member_id m)]\<rparr>,
                  effects = [Actions_append (''wk:'' @ str (member_id m)),
                             Kick (member_id m) ''Suspicious behavior''],
                  raised = (case kick m ''Suspicious behavior'' of
                              Returns u \<Rightarrow> None
                            | Raises e \<Rightarrow> Some e)\<rparr>
               else no_reaction bot'))"

subsection \<open>Vocabulary of the statements\<close>

text \<open>A rule the commands and the search take into account.\<close>

definition is_keyword_rule :: "AutoModRule \<Rightarrow> bool" where
  "is_keyword_rule rule = (type (trigger rule) = Keyword)"

text \<open>
  The sequence an edit is about: \<open>regex_patterns\<close> with the flag \<open>regex\<close>, \<open>keyword_filter\<close>
  without it; and the rule with that sequence replaced, everything else as it was.
\<close>

definition entries :: "bool \<Rightarrow> AutoModRule \<Rightarrow> string list" where
  "entries regex rule =
     (if regex then regex_patterns (trigger rule) else keyword_filter (trigger rule))"

definition with_entries :: "bool \<Rightarrow> string list \<Rightarrow> AutoModRule \<Rightarrow> AutoModRule" where
  "with_entries regex xs rule =
     (if regex then rule\<lparr>trigger := (trigger rule)\<lparr>regex_patterns := xs\<rparr>\<rparr>
      else rule\<lparr>trigger := (trigger rule)\<lparr>keyword_filter := xs\<rparr>\<rparr>)"

text \<open>The match descriptions of one rule for a query, and the block of text made of them.\<close>

definition descriptions :: "string \<Rightarrow> AutoModRule \<Rightarrow> string list" where
  "descriptions word rule =
     map (\<lambda>keyword. keyword @ '' contains '' @ word)
       (filter (contains word) (keyword_filter (trigger rule)))"

definition rule_block :: "string \<Rightarrow> AutoModRule \<Rightarrow> string" where
  "rule_block word rule =
     ''Rule '' @ name rule @ '':\<newline>  '' @ join ''  \<newline>'' (descriptions word rule)"

definition matching_rules :: "string \<Rightarrow> AutoModRule list \<Rightarrow> AutoModRule list" where
  "matching_rules word rules =
     filter (\<lambda>rule. is_keyword_rule rule \<and> descriptions word rule \<noteq> []) rules"

definition total_matches :: "string \<Rightarrow> AutoModRule list \<Rightarrow> nat" where
  "total_matches word rules =
     sum_list (map (\<lambda>rule. length (filter (contains word) (keyword_filter (trigger rule))))
                 (filter is_keyword_rule rules))"

text \<open>The kicks among the effects of the listener, as (member id, reason).\<close>

fun kick_calls :: "effect list \<Rightarrow> (int \<times> string) list" where
  "kick_calls [] = []"
| "kick_calls (Kick i reason # es) = (i, reason) # kick_calls es"
| "kick_calls (Actions_append tag # es) = kick_calls es"

subsection \<open>Concrete stores, rules and events\<close>

text \<open>A store that refuses every replace with the same detail, and one that takes every replace.\<close>

definition rejecting_store :: "string \<Rightarrow> rule_store" where
  "rejecting_store detail rule t = HTTPException detail"

definition accepting_store :: rule_store where
  "accepting_store rule t = Edited"

definition R1 :: AutoModRule where
  "R1 = \<lparr>rule_id = 1, name = ''R1'',
          trigger = \<lparr>type = Keyword, keyword_filter = [''free'', ''money''],
                     regex_patterns = [''fr+ee'']\<rparr>\<rparr>"

definition R2 :: AutoModRule where
  "R2 = \<lparr>rule_id = 2, name = ''R2'',
          trigger = \<lparr>type = Spam, keyword_filter = [], regex_patterns = []\<rparr>\<rparr>"

definition Scams :: AutoModRule where
  "Scams = \<lparr>rule_id = 10, name = ''Scams'',
             trigger = \<lparr>type = Keyword, keyword_filter = [''win'', ''prize''],
                        regex_patterns = [''w.n'']\<rparr>\<rparr>"

definition Spam_words :: AutoModRule where
  "Spam_words = \<lparr>rule_id = 11, name = ''Spam'',
                  trigger = \<lparr>type = Keyword, keyword_filter = [''buy''],
                             regex_patterns = []\<rparr>\<rparr>"

text \<open>Two keyword rules that share the name \<open>A\<close>.\<close>

definition A_first :: AutoModRule where
  "A_first = \<lparr>rule_id = 20, name = ''A'',
               trigger = \<lparr>type = Keyword, keyword_filter = [''x''], regex_patterns = []\<rparr>\<rparr>"

definition A_second :: AutoModRule where
  "A_second = \<lparr>rule_id = 21, name = ''A'',
                trigger = \<lparr>type = Keyword, keyword_filter = [''y''], regex_patterns = []\<rparr>\<rparr>"

text \<open>A rule whose keyword list holds \<open>x\<close> twice.\<close>

definition Doubled :: AutoModRule where
  "Doubled = \<lparr>rule_id = 30, name = ''Doubled'',
               trigger = \<lparr>type = Keyword, keyword_filter = [''a'', ''x'', ''b'', ''x''],
                          regex_patterns = []\<rparr>\<rparr>"

definition failing_kick :: "Member \<Rightarrow> string \<Rightarrow> unit outcome" where
  "failing_kick m reason = Raises ''403 Forbidden''"

definition working_kick :: "Member \<Rightarrow> string \<Rightarrow> unit outcome" where
  "working_kick m reason = Returns ()"

definition scams_action :: AutoModAction where
  "scams_action = \<lparr>fetch_rule = Returns (Some Scams), member' = Some \<lparr>member_id = 42\<rparr>\<rparr>"

definition spam_action :: AutoModAction where
  "spam_action = \<lparr>fetch_rule = Returns (Some Spam_words), member' = Some \<lparr>member_id = 42\<rparr>\<rparr>"

section \<open>Properties\<close>

subsection \<open>The Python primitives\<close>

lemma startswith_prefix: "startswith s w \<longleftrightarrow> prefix w s"
  by (induction s w rule: startswith.induct) auto

lemma contains_sublist: "contains word s \<longleftrightarrow> sublist word s"
  by (induction s) (auto simp: startswith_prefix sublist_Cons_right)

text \<open>\<open>contains\<close> is the substring test: the text splits around an occurrence of the word.\<close>

lemma contains_iff: "contains word s \<longleftrightarrow> (\<exists>ps ss. s = ps @ word @ ss)"
  by (simp add: contains_sublist sublist_def)

lemma contains_Nil: "contains [] s"
  by (simp add: contains_sublist)

lemma list_remove_split:
  "x \<notin> set ps \<Longrightarrow> list_remove x (ps @ x # ss) = Some (ps @ ss)"
  by (induction ps) auto

lemma list_remove_remove1: "x \<in> set xs \<Longrightarrow> list_remove x xs = Some (remove1 x xs)"
  by (induction xs) auto

lemma list_remove_append_new: "x \<notin> set xs \<Longrightarrow> list_remove x (xs @ [x]) = Some xs"
  using list_remove_split [of x xs "[]"] by simp

lemma dict_setitem_new:
  "k \<notin> fst ` set d \<Longrightarrow> dict_setitem k v d = d @ [(k, v)]"
  by (induction d) auto

lemma dict_append_last:
  "k \<notin> fst ` set d \<Longrightarrow> dict_append k x (d @ [(k, xs)]) = Some (d @ [(k, xs @ [x])])"
  by (induction d) auto

lemma dict_setitem_has_key: "k \<in> fst ` set (dict_setitem k v d)"
proof (induction d)
  case Nil
  then show ?case by simp
next
  case (Cons e d)
  obtain k' v' where e: "e = (k', v')" by (cases e)
  show ?case using Cons.IH by (cases "k' = k") (simp_all add: e)
qed

lemma dict_append_present:
  "k \<in> fst ` set d \<Longrightarrow> \<exists>d'. dict_append k x d = Some d' \<and> fst ` set d' = fst ` set d"
proof (induction d)
  case Nil
  then show ?case by simp
next
  case (Cons e d)
  obtain k' xs where e: "e = (k', xs)" by (cases e)
  show ?case
  proof (cases "k' = k")
    case True
    then show ?thesis by (simp add: e)
  next
    case False
    then have "k \<in> fst ` set d" using Cons.prems by (simp add: e)
    then obtain d' where a: "dict_append k x d = Some d'" and keys: "fst ` set d' = fst ` set d"
      using Cons.IH by blast
    show ?thesis using False a keys by (simp add: e)
  qed
qed

subsection \<open>The loops\<close>

lemma collect_choices_eq:
  "collect_choices current rules choices =
     choices @ map choice_of
       (filter (\<lambda>r. type (trigger r) = Keyword \<and> contains current (name r)) rules)"
  by (induction rules arbitrary: choices) auto

text \<open>
  The inner loop runs through when the rule's name is a key of the dictionary, counts the
  matching keywords and keeps the keys.
\<close>

lemma scan_keywords_count:
  "n \<in> fst ` set d \<Longrightarrow>
   \<exists>d'. scan_keywords word n ks (d, c) = Some (d', c + length (filter (contains word) ks))
     \<and> fst ` set d' = fst ` set d"
proof (induction ks arbitrary: d c)
  case Nil
  then show ?case by simp
next
  case (Cons k ks)
  show ?case
  proof (cases "contains word k")
    case False
    then show ?thesis using Cons.IH [OF Cons.prems, of c] by simp
  next
    case True
    obtain d1 where d1: "dict_append n (k @ '' contains '' @ word) d = Some d1"
      and keys: "fst ` set d1 = fst ` set d"
      using dict_append_present [OF Cons.prems] by blast
    have "n \<in> fst ` set d1" using keys Cons.prems by simp
    from Cons.IH [OF this, of "c + 1"] show ?thesis
      using True d1 keys by simp
  qed
qed

text \<open>The outer loop runs through and counts the matching keywords of the keyword rules.\<close>

lemma scan_rules_count:
  "\<exists>d'. scan_rules word rules (d, c) = Some (d', c + total_matches word rules)"
proof (induction rules arbitrary: d c)
  case Nil
  then show ?case by (simp add: total_matches_def)
next
  case (Cons rule rules)
  show ?case
  proof (cases "type (trigger rule) = Keyword")
    case True
    then have kw: "is_keyword_rule rule" by (simp add: is_keyword_rule_def)
    have "name rule \<in> fst ` set (dict_setitem (name rule) [] d)"
      by (rule dict_setitem_has_key)
    then obtain d1 where s: "scan_keywords word (name rule) (keyword_filter (trigger rule))
        (dict_setitem (name rule) [] d, c) =
        Some (d1, c + length (filter (contains word) (keyword_filter (trigger rule))))"
      using scan_keywords_count by blast
    show ?thesis
      using True kw s
        Cons.IH [of d1 "c + length (filter (contains word) (keyword_filter (trigger rule)))"]
      by (simp add: total_matches_def add.assoc)
  next
    case False
    then have "\<not> is_keyword_rule rule" by (simp add: is_keyword_rule_def)
    then show ?thesis
      using False Cons.IH [of d c] by (simp add: total_matches_def)
  qed
qed

text \<open>
  Under a key that sits last in the dictionary, the inner loop collects the descriptions
  of the matching keywords, in keyword order.
\<close>

lemma scan_keywords_matches:
  "n \<notin> fst ` set d \<Longrightarrow>
   scan_keywords word n ks (d @ [(n, xs)], c) =
     Some (d @ [(n, xs @ map (\<lambda>k. k @ '' contains '' @ word) (filter (contains word) ks))],
           c + length (filter (contains word) ks))"
  by (induction ks arbitrary: xs c) (auto simp: dict_append_last)

text \<open>
  When the keyword rules carry pairwise different names, none of them in the dictionary
  yet, the outer loop adds one entry per keyword rule, in the order of the rules.
\<close>

lemma scan_rules_matches:
  "distinct (map name (filter is_keyword_rule rules)) \<Longrightarrow>
   name ` set (filter is_keyword_rule rules) \<inter> fst ` set d = {} \<Longrightarrow>
   scan_rules word rules (d, c) =
     Some (d @ map (\<lambda>rule. (name rule, descriptions word rule)) (filter is_keyword_rule rules),
           c + total_matches word rules)"
proof (induction rules arbitrary: d c)
  case Nil
  then show ?case by (simp add: total_matches_def)
next
  case (Cons rule rules)
  show ?case
  proof (cases "type (trigger rule) = Keyword")
    case False
    then have nkw: "\<not> is_keyword_rule rule" by (simp add: is_keyword_rule_def)
    show ?thesis
      using False nkw Cons.IH [of d c] Cons.prems by (simp add: total_matches_def)
  next
    case True
    then have kw: "is_keyword_rule rule" by (simp add: is_keyword_rule_def)
    have new: "name rule \<notin> fst ` set d"
      using Cons.prems(2) kw by auto
    let ?d' = "d @ [(name rule, descriptions word rule)]"
    let ?c' = "c + length (filter (contains word) (keyword_filter (trigger rule)))"
    have s: "scan_keywords word (name rule) (keyword_filter (trigger rule))
        (dict_setitem (name rule) [] d, c) = Some (?d', ?c')"
      using scan_keywords_matches [OF new, of word "keyword_filter (trigger rule)" "[]" c]
      by (simp add: dict_setitem_new [OF new] descriptions_def)
    have d1: "distinct (map name (filter is_keyword_rule rules))"
      using Cons.prems(1) kw by simp
    have d2: "name ` set (filter is_keyword_rule rules) \<inter> fst ` set ?d' = {}"
      using Cons.prems kw by auto
    show ?thesis
      using True kw s Cons.IH [OF d1 d2, of ?c']
      by (simp add: total_matches_def add.assoc)
  qed
qed

text \<open>The rendering loop keeps the block of the last entry that has descriptions.\<close>

lemma render_matches_last:
  "render_matches d text' =
     (case filter (\<lambda>e. snd e \<noteq> []) d of
        [] \<Rightarrow> text'
      | e # es \<Rightarrow> ''Rule '' @ fst (last (e # es)) @ '':\<newline>  ''
                    @ join ''  \<newline>'' (snd (last (e # es))))"
  by (induction d text' rule: render_matches.induct) (auto split: list.splits)

section \<open>The claims\<close>

subsection \<open>The keyword set editor\<close>

text \<open>
  C5. On a rule whose trigger type is not \<open>keyword\<close>, whatever the text, the regex flag and
  the store, \<open>add_keyword\<close> and \<open>delete_keyword\<close> answer that the rule has no keyword filter
  (the cog's rendering of WrongTriggerType), send nothing to the rule store and leave the
  rule, with both of its sequences, as it was.
\<close>

theorem type_guard:
  "type (trigger rule) \<noteq> Keyword \<Longrightarrow>
     add_keyword edit rule keyword regex =
       \<lparr>rule_after = rule, store_calls = [],
        response = send_message ''This automod rule doesn't have a keyword filter.'' True None\<rparr>
     \<and> delete_keyword edit rule keyword regex =
       Inr \<lparr>rule_after = rule, store_calls = [],
            response = send_message ''This AutoMod rule doesn't have a keyword filter.'' True None\<rparr>"
  by (simp add: add_keyword_def delete_keyword_def early_return_def)

theorem type_guard_witness:
  "type (trigger R2) \<noteq> Keyword
   \<and> add_keyword accepting_store R2 ''x'' False =
       \<lparr>rule_after = R2, store_calls = [],
        response = send_message ''This automod rule doesn't have a keyword filter.'' True None\<rparr>
   \<and> delete_keyword accepting_store R2 ''x'' True =
       Inr \<lparr>rule_after = R2, store_calls = [],
            response = send_message ''This AutoMod rule doesn't have a keyword filter.'' True None\<rparr>"
proof -
  have h: "type (trigger R2) \<noteq> Keyword" by (simp add: R2_def)
  show ?thesis
    using h type_guard [OF h, of accepting_store "''x''" False]
      type_guard [OF h, of accepting_store "''x''" True]
    by simp
qed

text \<open>
  C6. On a keyword rule, \<open>add_keyword\<close> with a text that is already in the sequence the flag
  selects (exact string equality) answers that it is already in the filter (DuplicateEntry),
  and \<open>delete_keyword\<close> with a text that is not in that sequence answers that it is not in
  the filter (EntryNotFound); in both cases nothing is sent to the rule store and the rule
  is left as it was.
\<close>

theorem rejected_without_store_call:
  "type (trigger rule) = Keyword \<Longrightarrow>
     (keyword \<in> set (entries regex rule) \<longrightarrow>
        add_keyword edit rule keyword regex =
          \<lparr>rule_after = rule, store_calls = [],
           response = send_message
             (if regex then ''This regex expression is already in the filter.''
              else ''This keyword is already in the filter.'') True None\<rparr>)
     \<and> (keyword \<notin> set (entries regex rule) \<longrightarrow>
        delete_keyword edit rule keyword regex =
          Inr \<lparr>rule_after = rule, store_calls = [],
               response = send_message
                 (if regex then ''This regex expression is not in the filter.''
                  else ''This keyword is not in the filter.'') True None\<rparr>)"
  by (simp add: add_keyword_def delete_keyword_def early_return_def entries_def)

theorem rejected_without_store_call_witness:
  "type (trigger R1) = Keyword \<and> ''free'' \<in> set (entries False R1)
   \<and> ''money'' \<notin> set (entries True R1)
   \<and> add_keyword accepting_store R1 ''free'' False =
        \<lparr>rule_after = R1, store_calls = [],
         response = send_message ''This keyword is already in the filter.'' True None\<rparr>
   \<and> delete_keyword accepting_store R1 ''money'' True =
        Inr \<lparr>rule_after = R1, store_calls = [],
             response = send_message ''This regex expression is not in the filter.'' True None\<rparr>"
proof -
  have h: "type (trigger R1) = Keyword" by (simp add: R1_def)
  have p: "''free'' \<in> set (entries False R1)" by (simp add: R1_def entries_def)
  have a: "''money'' \<notin> set (entries True R1)" by (simp add: R1_def entries_def)
  show ?thesis
    using h p a rejected_without_store_call [OF h, of "''free''" False accepting_store]
      rejected_without_store_call [OF h, of "''money''" True accepting_store]
    by simp
qed

text \<open>
  The \<open>ValueError\<close> of \<open>list.remove\<close> never leaves \<open>delete_keyword\<close>: the command always
  returns.
\<close>

lemma delete_keyword_returns:
  "\<exists>out. delete_keyword edit rule keyword regex = Inr out"
  by (simp add: delete_keyword_def list_remove_remove1)

text \<open>
  C1, as stated, fails. The claim wants the appended entry discarded when the store rejects
  the replace. On the keyword rule \<open>R1\<close> with the keywords free and money, adding prize
  against a store that rejects: line 118 appends, \<open>rule.edit\<close> raises, the handler of
  lines 122 to 124 answers \<open>Failed to add keyword\<close> and returns. Nothing takes the entry out
  again: the rule object ends with free, money, prize.
\<close>

theorem add_keyword_rollback_counterexample:
  "type (trigger R1) = Keyword \<and> ''prize'' \<notin> set (entries False R1)
   \<and> response (add_keyword (rejecting_store ''400 Bad Request'') R1 ''prize'' False) =
        send_message ''Failed to add keyword: 400 Bad Request.'' True None
   \<and> keyword_filter (trigger R1) = [''free'', ''money'']
   \<and> keyword_filter (trigger (rule_after
         (add_keyword (rejecting_store ''400 Bad Request'') R1 ''prize'' False))) =
        [''free'', ''money'', ''prize'']
   \<and> rule_after (add_keyword (rejecting_store ''400 Bad Request'') R1 ''prize'' False) \<noteq> R1"
  by (simp add: add_keyword_def add_submit_def rejecting_store_def R1_def entries_def)

text \<open>
  C1, amended. On a keyword rule, when the replace is rejected with some detail:
  \<open>add_keyword\<close> with a text not yet in the selected sequence answers
  \<open>Failed to add keyword: detail.\<close> (RemoteRejected), has sent exactly one replace, carrying the
  trigger with the text appended, and leaves the rule object with the text appended at the
  end of that sequence; \<open>delete_keyword\<close> with a text in the selected sequence answers
  \<open>Failed to delete keyword: detail.\<close>, has sent exactly one replace, and leaves the rule object
  with the first occurrence of the text removed. Neither command undoes its local edit; the
  other sequence and the rest of the rule are untouched.
\<close>

theorem remote_rejection_keeps_local_edit:
  "type (trigger rule) = Keyword \<Longrightarrow>
     (keyword \<notin> set (entries regex rule) \<longrightarrow>
      added = with_entries regex (entries regex rule @ [keyword]) rule \<longrightarrow>
      edit added (trigger added) = HTTPException detail \<longrightarrow>
        add_keyword edit rule keyword regex =
          \<lparr>rule_after = added, store_calls = [(rule_id rule, trigger added)],
           response = send_message (''Failed to add keyword: '' @ detail @ ''.'') True None\<rparr>
        \<and> entries regex added = entries regex rule @ [keyword])
     \<and> (keyword \<in> set (entries regex rule) \<longrightarrow>
      removed = with_entries regex (remove1 keyword (entries regex rule)) rule \<longrightarrow>
      edit removed (trigger removed) = HTTPException detail \<longrightarrow>
        delete_keyword edit rule keyword regex =
          Inr \<lparr>rule_after = removed, store_calls = [(rule_id rule, trigger removed)],
               response = send_message (''Failed to delete keyword: '' @ detail @ ''.'') True None\<rparr>
        \<and> entries regex removed = remove1 keyword (entries regex rule))"
  by (cases regex)
    (simp_all add: add_keyword_def add_submit_def delete_keyword_def delete_submit_def
      entries_def with_entries_def list_remove_remove1)

theorem remote_rejection_keeps_local_edit_witness:
  "type (trigger R1) = Keyword
   \<and> ''prize'' \<notin> set (entries False R1)
   \<and> rejecting_store ''400 Bad Request''
        (with_entries False [''free'', ''money'', ''prize''] R1)
        (trigger (with_entries False [''free'', ''money'', ''prize''] R1)) =
      HTTPException ''400 Bad Request''
   \<and> add_keyword (rejecting_store ''400 Bad Request'') R1 ''prize'' False =
        \<lparr>rule_after = with_entries False [''free'', ''money'', ''prize''] R1,
         store_calls = [(1, trigger (with_entries False [''free'', ''money'', ''prize''] R1))],
         response = send_message ''Failed to add keyword: 400 Bad Request.'' True None\<rparr>
   \<and> ''fr+ee'' \<in> set (entries True R1)
   \<and> rejecting_store ''400 Bad Request'' (with_entries True [] R1)
        (trigger (with_entries True [] R1)) = HTTPException ''400 Bad Request''
   \<and> delete_keyword (rejecting_store ''400 Bad Request'') R1 ''fr+ee'' True =
        Inr \<lparr>rule_after = with_entries True [] R1,
             store_calls = [(1, trigger (with_entries True [] R1))],
             response = send_message ''Failed to delete keyword: 400 Bad Request.'' True None\<rparr>"
proof -
  have h: "type (trigger R1) = Keyword" by (simp add: R1_def)
  have e1: "entries False R1 = [''free'', ''money'']" by (simp add: R1_def entries_def)
  have e2: "entries True R1 = [''fr+ee'']" by (simp add: R1_def entries_def)
  have i: "rule_id R1 = 1" by (simp add: R1_def)
  show ?thesis
    using h
      remote_rejection_keeps_local_edit [OF h,
        where keyword = "''prize''" and regex = False
          and added = "with_entries False [''free'', ''money'', ''prize''] R1"
          and edit = "rejecting_store ''400 Bad Request''" and detail = "''400 Bad Request''"
          and removed = R1]
      remote_rejection_keeps_local_edit [OF h,
        where keyword = "''fr+ee''" and regex = True
          and removed = "with_entries True [] R1"
          and edit = "rejecting_store ''400 Bad Request''" and detail = "''400 Bad Request''"
          and added = R1]
    by (simp add: e1 e2 i rejecting_store_def)
qed

text \<open>
  C7. On a keyword rule and a text not yet in the selected sequence, with a store that
  accepts both replaces: \<open>add_keyword\<close> confirms and leaves the text appended at the end of the
  sequence, and \<open>delete_keyword\<close> of the same text on the resulting rule confirms and leaves
  exactly the original rule, the sequence equal to the original in content and order; the
  second replace carries the original trigger.
\<close>

theorem add_then_delete_restores:
  "type (trigger rule) = Keyword \<Longrightarrow>
   keyword \<notin> set (entries regex rule) \<Longrightarrow>
   added = with_entries regex (entries regex rule @ [keyword]) rule \<Longrightarrow>
   edit added (trigger added) = Edited \<Longrightarrow>
   edit rule (trigger rule) = Edited \<Longrightarrow>
     add_keyword edit rule keyword regex =
       \<lparr>rule_after = added, store_calls = [(rule_id rule, trigger added)],
        response = send_message
          (''Added keyword '' @ keyword @ '' to '' @ name rule @ '' Automod rule succesfully.'')
          True None\<rparr>
     \<and> entries regex added = entries regex rule @ [keyword]
     \<and> delete_keyword edit added keyword regex =
       Inr \<lparr>rule_after = rule, store_calls = [(rule_id rule, trigger rule)],
            response = send_message
              (''Deleted keyword '' @ keyword @ '' from '' @ name rule
                 @ '' automod rule succesfully.'')
              True None\<rparr>"
  by (cases regex)
    (simp_all add: add_keyword_def add_submit_def delete_keyword_def delete_submit_def
      entries_def with_entries_def list_remove_append_new)

theorem add_then_delete_restores_witness:
  "type (trigger R1) = Keyword \<and> ''prize'' \<notin> set (entries False R1)
   \<and> accepting_store (with_entries False [''free'', ''money'', ''prize''] R1)
        (trigger (with_entries False [''free'', ''money'', ''prize''] R1)) = Edited
   \<and> accepting_store R1 (trigger R1) = Edited
   \<and> add_keyword accepting_store R1 ''prize'' False =
        \<lparr>rule_after = with_entries False [''free'', ''money'', ''prize''] R1,
         store_calls = [(1, trigger (with_entries False [''free'', ''money'', ''prize''] R1))],
         response = send_message ''Added keyword prize to R1 Automod rule succesfully.'' True None\<rparr>
   \<and> delete_keyword accepting_store
        (with_entries False [''free'', ''money'', ''prize''] R1) ''prize'' False =
        Inr \<lparr>rule_after = R1, store_calls = [(1, trigger R1)],
             response = send_message ''Deleted keyword prize from R1 automod rule succesfully.''
               True None\<rparr>"
proof -
  have h: "type (trigger R1) = Keyword" by (simp add: R1_def)
  have e: "entries False R1 = [''free'', ''money'']" by (simp add: R1_def entries_def)
  have n: "''prize'' \<notin> set (entries False R1)" by (simp add: e)
  have a: "with_entries False [''free'', ''money'', ''prize''] R1 =
      with_entries False (entries False R1 @ [''prize'']) R1" by (simp add: e)
  have s1: "accepting_store (with_entries False [''free'', ''money'', ''prize''] R1)
        (trigger (with_entries False [''free'', ''money'', ''prize''] R1)) = Edited"
    by (simp add: accepting_store_def)
  have s2: "accepting_store R1 (trigger R1) = Edited" by (simp add: accepting_store_def)
  have i: "rule_id R1 = 1" "name R1 = ''R1''" by (simp_all add: R1_def)
  show ?thesis
    using h n s1 s2 add_then_delete_restores [where edit = accepting_store, OF h n a s1 s2]
    by (simp add: i)
qed

text \<open>
  C9. On a keyword rule whose selected sequence holds the text, possibly several times,
  \<open>delete_keyword\<close> takes out the first occurrence only: with the sequence split as
  \<open>ps @ keyword # ss\<close>, \<open>keyword\<close> not in \<open>ps\<close>, the rule is left with \<open>ps @ ss\<close>, later
  occurrences in \<open>ss\<close> included, and that is the trigger sent to the store, whatever the
  store answers.
\<close>

theorem delete_removes_first_occurrence:
  "type (trigger rule) = Keyword \<Longrightarrow>
   entries regex rule = ps @ keyword # ss \<Longrightarrow>
   keyword \<notin> set ps \<Longrightarrow>
   removed = with_entries regex (ps @ ss) rule \<Longrightarrow>
     \<exists>out. delete_keyword edit rule keyword regex = Inr out
       \<and> rule_after out = removed
       \<and> store_calls out = [(rule_id rule, trigger removed)]
       \<and> entries regex removed = ps @ ss"
  by (cases regex; cases "edit removed (trigger removed)")
    (simp_all add: delete_keyword_def delete_submit_def entries_def with_entries_def
      list_remove_split)

theorem delete_removes_first_occurrence_witness:
  "type (trigger Doubled) = Keyword
   \<and> entries False Doubled = [''a''] @ ''x'' # [''b'', ''x'']
   \<and> ''x'' \<notin> set [''a'']
   \<and> (\<exists>out. delete_keyword accepting_store Doubled ''x'' False = Inr out
         \<and> rule_after out = with_entries False [''a'', ''b'', ''x''] Doubled
         \<and> store_calls out = [(30, trigger (with_entries False [''a'', ''b'', ''x''] Doubled))]
         \<and> entries False (with_entries False [''a'', ''b'', ''x''] Doubled) = [''a'', ''b'', ''x''])"
proof -
  have h: "type (trigger Doubled) = Keyword" by (simp add: Doubled_def)
  have e: "entries False Doubled = [''a''] @ ''x'' # [''b'', ''x'']"
    by (simp add: Doubled_def entries_def)
  have n: "''x'' \<notin> set [''a'']" by simp
  have r: "with_entries False [''a'', ''b'', ''x''] Doubled =
      with_entries False ([''a''] @ [''b'', ''x'']) Doubled" by simp
  have i: "rule_id Doubled = 30" by (simp add: Doubled_def)
  show ?thesis
    using h e n delete_removes_first_occurrence [OF h e n r, of accepting_store]
    by (simp add: i)
qed

subsection \<open>Decimal renderings used below\<close>

lemma str_1: "str 1 = ''1''"
  by code_simp

lemma str_2: "str 2 = ''2''"
  by code_simp

lemma str_3: "str 3 = ''3''"
  by code_simp

lemma str_42: "str 42 = ''42''"
  by code_simp

lemma str_10: "str 10 = ''10''"
  by code_simp

lemma str_11: "str 11 = ''11''"
  by code_simp

subsection \<open>The rule autocomplete filter\<close>

text \<open>
  C8. For every snapshot \<open>rules\<close> and partial input \<open>current\<close>, the suggestions are, in the
  snapshot's order, one \<open>Choice\<close> per rule of the snapshot that is a keyword rule and whose
  name has \<open>current\<close> as a substring, case-sensitively; the choice carries that rule's name
  and its id as decimal text. So every suggestion names a keyword rule of the snapshot
  whose name contains the input. With the empty input the suggestions are those of all
  keyword rules of the snapshot, in order, so there are as many of them as keyword rules.
\<close>

theorem rules_autocomplete_filter:
  "rules_autocomplete rules current =
     map (\<lambda>rule. Choice (name rule) (str (rule_id rule)))
       (filter (\<lambda>rule. type (trigger rule) = Keyword
                  \<and> (\<exists>ps ss. name rule = ps @ current @ ss)) rules)
   \<and> rules_autocomplete rules [] =
       map (\<lambda>rule. Choice (name rule) (str (rule_id rule)))
         (filter (\<lambda>rule. type (trigger rule) = Keyword) rules)
   \<and> length (rules_autocomplete rules []) =
       length (filter (\<lambda>rule. type (trigger rule) = Keyword) rules)
   \<and> (\<forall>c \<in> set (rules_autocomplete rules current).
         \<exists>rule \<in> set rules. c = Choice (name rule) (str (rule_id rule))
           \<and> type (trigger rule) = Keyword
           \<and> (\<exists>ps ss. name rule = ps @ current @ ss))"
proof -
  have co: "choice_of = (\<lambda>rule. Choice (name rule) (str (rule_id rule)))"
    by (rule ext) (simp add: choice_of_def)
  have general: "rules_autocomplete rules c =
      map choice_of (filter (\<lambda>rule. type (trigger rule) = Keyword \<and> contains c (name rule)) rules)"
    for c
  proof (cases "c = []")
    case True
    have "[choice_of rule. rule \<leftarrow> rules, type (trigger rule) = Keyword] =
        map choice_of (filter (\<lambda>rule. type (trigger rule) = Keyword) rules)"
      by (induction rules) auto
    then show ?thesis
      using True by (simp add: rules_autocomplete_def contains_Nil)
  next
    case False
    then show ?thesis
      by (simp add: rules_autocomplete_def collect_choices_eq)
  qed
  have filtered: "rules_autocomplete rules current =
      map (\<lambda>rule. Choice (name rule) (str (rule_id rule)))
        (filter (\<lambda>rule. type (trigger rule) = Keyword
                   \<and> (\<exists>ps ss. name rule = ps @ current @ ss)) rules)"
    using general [of current] by (simp add: contains_iff co)
  have empty: "rules_autocomplete rules [] =
      map (\<lambda>rule. Choice (name rule) (str (rule_id rule)))
        (filter (\<lambda>rule. type (trigger rule) = Keyword) rules)"
    using general [of "[]"] by (simp add: contains_Nil co)
  have len: "length (rules_autocomplete rules []) =
      length (filter (\<lambda>rule. type (trigger rule) = Keyword) rules)"
    by (simp only: empty length_map)
  have each: "\<forall>c \<in> set (rules_autocomplete rules current).
      \<exists>rule \<in> set rules. c = Choice (name rule) (str (rule_id rule))
        \<and> type (trigger rule) = Keyword
        \<and> (\<exists>ps ss. name rule = ps @ current @ ss)"
  proof
    fix c
    assume "c \<in> set (rules_autocomplete rules current)"
    then obtain rule where
      r: "rule \<in> set (filter (\<lambda>rule. type (trigger rule) = Keyword
                   \<and> (\<exists>ps ss. name rule = ps @ current @ ss)) rules)"
      and c: "c = Choice (name rule) (str (rule_id rule))"
      unfolding filtered by auto
    from r have "rule \<in> set rules" "type (trigger rule) = Keyword"
      "\<exists>ps ss. name rule = ps @ current @ ss"
      by simp_all
    with c show "\<exists>rule \<in> set rules. c = Choice (name rule) (str (rule_id rule))
        \<and> type (trigger rule) = Keyword
        \<and> (\<exists>ps ss. name rule = ps @ current @ ss)"
      by blast
  qed
  show ?thesis
    using filtered empty len each by blast
qed

text \<open>
  The snapshot Spam, R2, Scams, R1 and the input \<open>am\<close>: Spam and Scams, in that order, each
  with its own name and id; R2 is no keyword rule and R1 has no \<open>am\<close> in its name. With the
  empty input R1 comes back as well.
\<close>

theorem rules_autocomplete_filter_witness:
  "rules_autocomplete [Spam_words, R2, Scams, R1] ''am'' =
     [Choice ''Spam'' ''11'', Choice ''Scams'' ''10'']
   \<and> rules_autocomplete [Spam_words, R2, Scams, R1] [] =
     [Choice ''Spam'' ''11'', Choice ''Scams'' ''10'', Choice ''R1'' ''1'']
   \<and> Choice ''Scams'' ''10'' \<in> set (rules_autocomplete [Spam_words, R2, Scams, R1] ''am'')
   \<and> (\<exists>rule \<in> set [Spam_words, R2, Scams, R1].
         Choice ''Scams'' ''10'' = Choice (name rule) (str (rule_id rule))
         \<and> type (trigger rule) = Keyword
         \<and> (\<exists>ps ss. name rule = ps @ ''am'' @ ss))"
proof -
  have a: "rules_autocomplete [Spam_words, R2, Scams, R1] ''am'' =
      [Choice ''Spam'' ''11'', Choice ''Scams'' ''10'']"
    by (simp add: rules_autocomplete_def choice_of_def Spam_words_def R2_def Scams_def R1_def
        str_10 str_11)
  have b: "rules_autocomplete [Spam_words, R2, Scams, R1] [] =
      [Choice ''Spam'' ''11'', Choice ''Scams'' ''10'', Choice ''R1'' ''1'']"
    by (simp add: rules_autocomplete_def choice_of_def Spam_words_def R2_def Scams_def R1_def
        str_10 str_11 str_1)
  have m: "Choice ''Scams'' ''10'' \<in> set (rules_autocomplete [Spam_words, R2, Scams, R1] ''am'')"
    by (simp add: a)
  have e: "\<exists>rule \<in> set [Spam_words, R2, Scams, R1].
         Choice ''Scams'' ''10'' = Choice (name rule) (str (rule_id rule))
         \<and> type (trigger rule) = Keyword
         \<and> (\<exists>ps ss. name rule = ps @ ''am'' @ ss)"
    using m rules_autocomplete_filter [of "[Spam_words, R2, Scams, R1]" "''am''"] by blast
  show ?thesis
    using a b m e by blast
qed

subsection \<open>The keyword search\<close>

text \<open>
  C4. For every snapshot and query, the count the search arrives at is the number of
  literal keywords that contain the query as a substring (case-sensitive: a split
  \<open>keyword = ps @ word @ ss\<close>), summed over the keyword rules only. Replacing the regex
  patterns of the rules by anything leaves the count as it is. With the empty query the
  count is the number of all literal keywords of all keyword rules. The answer reports
  that count, or \<open>No match found.\<close> when it is zero.
\<close>

theorem search_count:
  "map_option snd (scan_rules word rules ([], 0)) = Some (total_matches word rules)
   \<and> total_matches word rules =
       sum_list (map (\<lambda>rule. length (filter (\<lambda>keyword. \<exists>ps ss. keyword = ps @ word @ ss)
                                        (keyword_filter (trigger rule))))
                   (filter (\<lambda>rule. type (trigger rule) = Keyword) rules))
   \<and> total_matches word
         (map (\<lambda>rule. rule\<lparr>trigger := (trigger rule)\<lparr>regex_patterns := patterns rule\<rparr>\<rparr>) rules) =
       total_matches word rules
   \<and> total_matches [] rules =
       sum_list (map (\<lambda>rule. length (keyword_filter (trigger rule)))
                   (filter (\<lambda>rule. type (trigger rule) = Keyword) rules))
   \<and> (\<exists>answer. search_keyword rules word = Inr answer
         \<and> content answer =
             (if total_matches word rules = 0 then ''No match found.''
              else str (int (total_matches word rules)) @ '' matches found.''))"
proof -
  have kw: "is_keyword_rule = (\<lambda>rule. type (trigger rule) = Keyword)"
    by (rule ext) (simp add: is_keyword_rule_def)
  have c: "contains w = (\<lambda>keyword. \<exists>ps ss. keyword = ps @ w @ ss)" for w
    by (rule ext) (simp add: contains_iff)
  obtain d where total: "scan_rules word rules ([], 0) = Some (d, total_matches word rules)"
    using scan_rules_count [of word rules "[]" 0] by auto
  have t0: "map_option snd (scan_rules word rules ([], 0)) = Some (total_matches word rules)"
    by (simp add: total)
  have t1: "total_matches word rules =
      sum_list (map (\<lambda>rule. length (filter (\<lambda>keyword. \<exists>ps ss. keyword = ps @ word @ ss)
                                      (keyword_filter (trigger rule))))
                 (filter (\<lambda>rule. type (trigger rule) = Keyword) rules))"
    by (simp add: total_matches_def kw c)
  have t2: "total_matches word
      (map (\<lambda>rule. rule\<lparr>trigger := (trigger rule)\<lparr>regex_patterns := patterns rule\<rparr>\<rparr>) rules) =
      total_matches word rules"
    by (induction rules) (simp_all add: total_matches_def is_keyword_rule_def)
  have t3: "total_matches [] rules =
      sum_list (map (\<lambda>rule. length (keyword_filter (trigger rule)))
                   (filter (\<lambda>rule. type (trigger rule) = Keyword) rules))"
    by (simp add: total_matches_def kw contains_Nil)
  have t4: "\<exists>answer. search_keyword rules word = Inr answer
         \<and> content answer =
             (if total_matches word rules = 0 then ''No match found.''
              else str (int (total_matches word rules)) @ '' matches found.'')"
    by (simp add: search_keyword_def total send_message_def)
  show ?thesis
    using t0 t1 t2 t3 t4 by blast
qed

text \<open>The \<open>KeyError\<close> never leaves \<open>search_keyword\<close>: the command always returns.\<close>

lemma search_keyword_returns: "\<exists>answer. search_keyword rules word = Inr answer"
proof -
  obtain d where "scan_rules word rules ([], 0) = Some (d, total_matches word rules)"
    using scan_rules_count [of word rules "[]" 0] by auto
  then show ?thesis by (simp add: search_keyword_def)
qed

text \<open>
  The scenario of the specification: Scams with win and prize, Spam with buy, query \<open>i\<close>:
  two matches, both of Scams. The pattern \<open>w.n\<close> of Scams is not looked at.
\<close>

lemma search_keyword_scenario:
  "search_keyword [Scams, Spam_words] ''i'' =
     Inr (send_message ''2 matches found.'' False
       (Some (File ''matches.txt'' ''Rule Scams:\<newline>  win contains i  \<newline>prize contains i'')))"
  by (simp add: search_keyword_def Scams_def Spam_words_def text_to_discord_file_def str_2)

lemma matching_rules_filter:
  "filter (\<lambda>e. snd e \<noteq> [])
     (map (\<lambda>rule. (name rule, descriptions word rule)) (filter is_keyword_rule rules)) =
   map (\<lambda>rule. (name rule, descriptions word rule)) (matching_rules word rules)"
  by (induction rules) (simp_all add: matching_rules_def)

lemma total_matches_pos:
  "matching_rules word rules \<noteq> [] \<Longrightarrow> total_matches word rules \<noteq> 0"
  by (induction rules)
    (auto simp: matching_rules_def total_matches_def descriptions_def split: if_splits)

lemma render_matches_entries:
  assumes "matching_rules word rules \<noteq> []"
  shows "render_matches
      (map (\<lambda>rule. (name rule, descriptions word rule)) (filter is_keyword_rule rules)) text' =
    rule_block word (last (matching_rules word rules))"
proof -
  obtain r rs where ms: "matching_rules word rules = r # rs"
    using assms by (cases "matching_rules word rules") auto
  have "last (map (\<lambda>rule. (name rule, descriptions word rule)) (r # rs)) =
      (name (last (r # rs)), descriptions word (last (r # rs)))"
    by (simp only: last_map list.simps(3) not_False_eq_True)
  then show ?thesis
    unfolding render_matches_last matching_rules_filter ms rule_block_def
    by simp
qed

text \<open>
  On snapshots whose keyword rules carry pairwise different names the rendering does what
  is expected of it: for a query with at least one match, the text that is sent is the
  block of exactly one rule, the last rule of the snapshot that is a keyword rule with at
  least one matching literal keyword, and the message reports the matches of all keyword
  rules together.
\<close>

lemma search_renders_last_matching_rule:
  assumes "distinct (map name (filter is_keyword_rule rules))"
    and "matching_rules word rules \<noteq> []"
  shows "search_keyword rules word =
    Inr (send_message (str (int (total_matches word rules)) @ '' matches found.'') False
      (Some (File ''matches.txt'' (rule_block word (last (matching_rules word rules))))))"
proof -
  have s: "scan_rules word rules ([], 0) =
      Some (map (\<lambda>rule. (name rule, descriptions word rule)) (filter is_keyword_rule rules),
            total_matches word rules)"
    using scan_rules_matches [OF assms(1), of "[]" word 0] by simp
  show ?thesis
    using total_matches_pos [OF assms(2)]
    by (simp add: search_keyword_def s render_matches_entries [OF assms(2)]
        text_to_discord_file_def)
qed

lemma search_renders_last_matching_rule_example:
  "distinct (map name (filter is_keyword_rule [Spam_words, R2, Scams, R1]))
   \<and> matching_rules ''e'' [Spam_words, R2, Scams, R1] = [Scams, R1]
   \<and> search_keyword [Spam_words, R2, Scams, R1] ''e'' =
       Inr (send_message ''3 matches found.'' False
         (Some (File ''matches.txt''
            ''Rule R1:\<newline>  free contains e  \<newline>money contains e'')))"
proof -
  have k: "filter is_keyword_rule [Spam_words, R2, Scams, R1] = [Spam_words, Scams, R1]"
    by (simp add: is_keyword_rule_def Spam_words_def R2_def Scams_def R1_def)
  have d: "distinct (map name (filter is_keyword_rule [Spam_words, R2, Scams, R1]))"
    unfolding k by (simp add: Spam_words_def Scams_def R1_def)
  have ms: "matching_rules ''e'' [Spam_words, R2, Scams, R1] = [Scams, R1]"
    by (simp add: matching_rules_def is_keyword_rule_def descriptions_def
        Spam_words_def R2_def Scams_def R1_def)
  have ne: "matching_rules ''e'' [Spam_words, R2, Scams, R1] \<noteq> []"
    by (simp add: ms)
  have t: "total_matches ''e'' [Spam_words, R2, Scams, R1] = 3"
    unfolding total_matches_def k by (simp add: Spam_words_def Scams_def R1_def)
  have b: "rule_block ''e'' R1 = ''Rule R1:\<newline>  free contains e  \<newline>money contains e''"
    by (simp add: rule_block_def descriptions_def R1_def)
  show ?thesis
    using d ms search_renders_last_matching_rule [OF d ne]
    by (simp add: t b str_3)
qed

text \<open>
  C2. For every snapshot and query with at least one match, the text that is sent should
  be the block of the last rule, in snapshot order, that has a matching literal keyword,
  while the message reports the matches of all rules. The code does not keep to this when
  two keyword rules share a name, because \<open>matches\<close> is keyed by the rule's name. On the
  snapshot of two keyword rules both named A, the first with the keyword x, the second
  with y, and the query x: the first rule puts \<open>x contains x\<close> under A and the count becomes
  1; for the second rule line 73 assigns \<open>matches['A'] = []\<close> again, which throws the
  description away while the count keeps its hit, and nothing is found in y. The last (and
  only) rule with a match is the first one, and its block is \<open>Rule A:\<close> with \<open>x contains x\<close>;
  what is sent is the message \<open>1 matches found.\<close> with an empty text.
\<close>

theorem search_keyword_duplicate_names:
  "is_keyword_rule A_first \<and> is_keyword_rule A_second
   \<and> matching_rules ''x'' [A_first, A_second] = [A_first]
   \<and> rule_block ''x'' A_first = ''Rule A:\<newline>  x contains x''
   \<and> search_keyword [A_first, A_second] ''x'' =
       Inr (send_message ''1 matches found.'' False (Some (File ''matches.txt'' [])))
   \<and> search_keyword [A_first, A_second] ''x'' \<noteq>
       Inr (send_message ''1 matches found.'' False
         (Some (File ''matches.txt''
            (rule_block ''x'' (last (matching_rules ''x'' [A_first, A_second]))))))"
  by (simp add: search_keyword_def A_first_def A_second_def is_keyword_rule_def
      matching_rules_def descriptions_def rule_block_def text_to_discord_file_def str_1
      send_message_def)

subsection \<open>The action reactor\<close>

text \<open>
  C3. For every event, every bot state and every behaviour of the kick: the listener kicks
  if and only if fetching the rule gives a rule, the member is known, and the rule's name
  is \<open>Scams\<close>; it then kicks that member once, with the reason \<open>Suspicious behavior\<close>. In
  every other case (the fetch raises or gives nothing, no member, another name) there is
  no effect at all: no kick, nothing appended to the action list.
\<close>

theorem reactor_gating:
  "(kick_calls (effects (on_automod_action kick bot' action)) \<noteq> [] \<longleftrightarrow>
      (\<exists>rule m. fetch_rule action = Returns (Some rule) \<and> member' action = Some m
         \<and> name rule = ''Scams''))
   \<and> (\<forall>rule m. fetch_rule action = Returns (Some rule) \<and> member' action = Some m
         \<and> name rule = ''Scams'' \<longrightarrow>
         kick_calls (effects (on_automod_action kick bot' action)) =
           [(member_id m, ''Suspicious behavior'')])
   \<and> (kick_calls (effects (on_automod_action kick bot' action)) = [] \<longrightarrow>
         effects (on_automod_action kick bot' action) = []
         \<and> bot_after (on_automod_action kick bot' action) = bot')"
  by (auto simp: on_automod_action_def no_reaction_def
      split: outcome.splits option.splits)

theorem reactor_gating_witness:
  "kick_calls (effects (on_automod_action working_kick \<lparr>actions = []\<rparr> scams_action)) =
     [(42, ''Suspicious behavior'')]
   \<and> kick_calls (effects (on_automod_action working_kick \<lparr>actions = []\<rparr> spam_action)) = []
   \<and> effects (on_automod_action working_kick \<lparr>actions = []\<rparr> spam_action) = []
   \<and> bot_after (on_automod_action working_kick \<lparr>actions = []\<rparr> spam_action) = \<lparr>actions = []\<rparr>"
proof -
  have scams: "fetch_rule scams_action = Returns (Some Scams)
      \<and> member' scams_action = Some \<lparr>member_id = 42\<rparr> \<and> name Scams = ''Scams''"
    by (simp add: scams_action_def Scams_def)
  have spam: "\<not> (\<exists>rule m. fetch_rule spam_action = Returns (Some rule)
      \<and> member' spam_action = Some m \<and> name rule = ''Scams'')"
    by (simp add: spam_action_def Spam_words_def)
  have k: "kick_calls (effects (on_automod_action working_kick \<lparr>actions = []\<rparr> scams_action)) =
      [(member_id \<lparr>member_id = 42\<rparr>, ''Suspicious behavior'')]"
    using scams reactor_gating [of working_kick "\<lparr>actions = []\<rparr>" scams_action] by blast
  have n: "kick_calls (effects (on_automod_action working_kick \<lparr>actions = []\<rparr> spam_action)) = []"
    using spam reactor_gating [of working_kick "\<lparr>actions = []\<rparr>" spam_action] by blast
  have e: "effects (on_automod_action working_kick \<lparr>actions = []\<rparr> spam_action) = []
      \<and> bot_after (on_automod_action working_kick \<lparr>actions = []\<rparr> spam_action) = \<lparr>actions = []\<rparr>"
    using n reactor_gating [of working_kick "\<lparr>actions = []\<rparr>" spam_action] by blast
  show ?thesis using k n e by simp
qed

text \<open>
  C10. For an event whose rule is fetched and named \<open>Scams\<close> and whose member is known, the
  tag \<open>wk:\<close> followed by the member id is appended to the bot's action list first and the
  kick comes second; the list ends with the tag whatever the kick does, also when the kick
  raises, in which case the exception leaves the listener with the tag still in the list.
\<close>

theorem tag_logged_before_kick:
  "fetch_rule action = Returns (Some rule) \<Longrightarrow>
   name rule = ''Scams'' \<Longrightarrow>
   member' action = Some m \<Longrightarrow>
     effects (on_automod_action kick bot' action) =
       [Actions_append (''wk:'' @ str (member_id m)),
        Kick (member_id m) ''Suspicious behavior'']
     \<and> actions (bot_after (on_automod_action kick bot' action)) =
         actions bot' @ [''wk:'' @ str (member_id m)]
     \<and> raised (on_automod_action kick bot' action) =
         (case kick m ''Suspicious behavior'' of Returns u \<Rightarrow> None | Raises e \<Rightarrow> Some e)"
  by (simp add: on_automod_action_def)

theorem tag_logged_before_kick_witness:
  "fetch_rule scams_action = Returns (Some Scams) \<and> name Scams = ''Scams''
   \<and> member' scams_action = Some \<lparr>member_id = 42\<rparr>
   \<and> effects (on_automod_action failing_kick \<lparr>actions = [''earlier'']\<rparr> scams_action) =
       [Actions_append ''wk:42'', Kick 42 ''Suspicious behavior'']
   \<and> actions (bot_after (on_automod_action failing_kick \<lparr>actions = [''earlier'']\<rparr> scams_action)) =
       [''earlier'', ''wk:42'']
   \<and> raised (on_automod_action failing_kick \<lparr>actions = [''earlier'']\<rparr> scams_action) =
       Some ''403 Forbidden''"
proof -
  have f: "fetch_rule scams_action = Returns (Some Scams)" by (simp add: scams_action_def)
  have n: "name Scams = ''Scams''" by (simp add: Scams_def)
  have m: "member' scams_action = Some \<lparr>member_id = 42\<rparr>" by (simp add: scams_action_def)
  show ?thesis
    using f n m tag_logged_before_kick [OF f n m, of failing_kick "\<lparr>actions = [''earlier'']\<rparr>"]
    by (simp add: str_42 failing_kick_def)
qed

end
